theory Spec2Isabelle
  imports Main
begin

section \<open>Shallow embedding of \<open>ml_croissant/_src/datasets.py\<close>\<close>

text \<open>
  The module has three parts: \<open>_load_file\<close>, the \<open>Validator\<close> (static analysis of a
  Croissant file), and \<open>Dataset\<close>/\<open>Records\<close> (the execution engine that walks the graph
  of operations and yields records). Everything the module imports from elsewhere
  (the file system, the RDF and structure-graph checks, the compiler of the
  computation graph, networkx's topological sort, and what an operation computes
  when it is called) is a parameter of the model, collected in two records of
  functions; the control flow of the module itself is translated line by line.
\<close>

subsection \<open>Exceptions and Python values\<close>

text \<open>
  The exceptions the module raises itself, \<open>Failure\<close> for any other \<open>Exception\<close> that
  a collaborator raises, and the two exceptions a collaborator can raise that
  are not an \<open>Exception\<close> (they derive from \<open>BaseException\<close> only). The message of the
  two \<open>assert\<close> statements is built from \<open>str(operation)\<close>, which lives outside the
  module, so \<open>AssertionError\<close> carries none.
\<close>

datatype exn =
    ValueError string
  | ValidationError string
  | AssertionError
  | AttributeError
  | Failure string
  | KeyboardInterrupt
  | SystemExit

text \<open>\<open>isinstance(e, Exception)\<close>: what \<open>except Exception\<close> catches.\<close>

fun is_Exception :: "exn \<Rightarrow> bool" where
  "is_Exception KeyboardInterrupt = False"
| "is_Exception SystemExit = False"
| "is_Exception e = True"

text \<open>
  What an operation returns: \<open>None\<close>, a table whose \<open>iterrows()\<close> gives its rows in
  order, or any other object (payload \<open>'a\<close>). Only a table has \<open>iterrows\<close>.
\<close>

datatype 'a pyval =
    PyNone
  | PyObj 'a
  | DataFrame "'a pyval list"

type_synonym 'a kwargs = "(string \<times> 'a pyval) list"

subsection \<open>Nodes, operations and the graph of operations\<close>

record Node =
  uid :: string
  name :: string

text \<open>
  The engine tells operations apart with \<open>isinstance\<close> only: \<open>GroupRecordSet\<close>,
  \<open>ReadField\<close>, or any other class (here with the class name). Every operation
  carries the node it was compiled from.
\<close>

datatype operation =
    GroupRecordSet Node
  | ReadField Node
  | Operation string Node

fun is_ReadField :: "operation \<Rightarrow> bool" where
  "is_ReadField (ReadField n) = True"
| "is_ReadField (GroupRecordSet n) = False"
| "is_ReadField (Operation c n) = False"

text \<open>
  The networkx \<open>DiGraph\<close>: its nodes in insertion order, each with the \<open>kwargs\<close> entry
  of its attribute dictionary when it has one, and its edges in insertion order.
\<close>

record 'a DiGraph =
  nodes :: "(operation \<times> 'a kwargs option) list"
  edges :: "(operation \<times> operation) list"

definition predecessors :: "'a DiGraph \<Rightarrow> operation \<Rightarrow> operation list" where
  "predecessors g v = [p. (p, s) \<leftarrow> edges g, s = v]"

definition successors :: "'a DiGraph \<Rightarrow> operation \<Rightarrow> operation list" where
  "successors g v = [s. (p, s) \<leftarrow> edges g, p = v]"

text \<open>\<open>operations.nodes[operation].get("kwargs", {})\<close>\<close>

definition get_kwargs :: "'a DiGraph \<Rightarrow> operation \<Rightarrow> 'a kwargs" where
  "get_kwargs g v = (case map_of (nodes g) v of Some (Some kw) \<Rightarrow> kw | _ \<Rightarrow> [])"

text \<open>The names of the record sets that have a \<open>GroupRecordSet\<close> node in the graph.\<close>

definition group_names :: "'a DiGraph \<Rightarrow> string list" where
  "group_names g = [name n. GroupRecordSet n \<leftarrow> map fst (nodes g)]"

record 'a ComputationGraph =
  graph_of :: "'a DiGraph"

subsection \<open>The execution engine: \<open>Records.__iter__\<close>\<close>

text \<open>
  The collaborators of the engine: \<open>call\<close> is \<open>operation(*args, **kwargs)\<close>, which
  returns a value or raises; \<open>topological_sort\<close> is networkx's generator, which
  gives the operations in order and may raise once they are exhausted.
  Here calling an operation is a function of its arguments; the engine over
  operation objects that keep state comes after it.
\<close>

record 'a engine =
  call :: "operation \<Rightarrow> 'a pyval list \<Rightarrow> 'a kwargs \<Rightarrow> exn + 'a pyval"
  topological_sort :: "'a DiGraph \<Rightarrow> operation list \<times> exn option"

text \<open>
  The state of one iteration: the local dictionary \<open>results\<close>, the records yielded
  so far, and (for the claims about what is and is not invoked) the calls made so
  far, each with its arguments.
\<close>

record 'a exec =
  results :: "operation \<rightharpoonup> 'a pyval"
  yielded :: "'a pyval list"
  invoked :: "(operation \<times> 'a pyval list \<times> 'a kwargs) list"

definition init_exec :: "'a exec" where
  "init_exec = \<lparr>results = Map.empty, yielded = [], invoked = []\<rparr>"

definition invoke ::
  "'a engine \<Rightarrow> operation \<Rightarrow> 'a pyval list \<Rightarrow> 'a kwargs \<Rightarrow> 'a exec \<Rightarrow> (exn + 'a pyval) \<times> 'a exec" where
  "invoke env operation args kw st =
     (call env operation args kw, st\<lparr>invoked := invoked st @ [(operation, args, kw)]\<rparr>)"

text \<open>
  \<^verbatim>\<open>[results[p] for p in operations.predecessors(operation)
      if p in results and results[p] is not None]\<close>
\<close>

definition previous_results ::
  "'a DiGraph \<Rightarrow> (operation \<rightharpoonup> 'a pyval) \<Rightarrow> operation \<Rightarrow> 'a pyval list" where
  "previous_results g res operation =
     [the (res p). p \<leftarrow> predecessors g operation, res p \<noteq> None \<and> res p \<noteq> Some PyNone]"

text \<open>
  The innermost loop, over \<open>operations.successors(operation)\<close> for one row:
  each successor must be a \<open>ReadField\<close> and is called on the row with the kwargs of
  the \<open>GroupRecordSet\<close>; \<open>acc\<close> is the list \<open>read_fields\<close>.
\<close>

fun read_fields_loop ::
  "'a engine \<Rightarrow> 'a pyval \<Rightarrow> 'a kwargs \<Rightarrow> operation list \<Rightarrow> 'a pyval list \<Rightarrow> 'a exec
     \<Rightarrow> (exn + 'a pyval list) \<times> 'a exec" where
  "read_fields_loop env line kw [] acc st = (Inr acc, st)"
| "read_fields_loop env line kw (read_field # rest) acc st =
     (if \<not> is_ReadField read_field then (Inl AssertionError, st)
      else case invoke env read_field [line] kw st of
          (Inl e, st') \<Rightarrow> (Inl e, st')
        | (Inr v, st') \<Rightarrow> read_fields_loop env line kw rest (acc @ [v]) st')"

text \<open>
  The loop over \<open>previous_result.iterrows()\<close>: read the fields of the row, call
  the \<open>GroupRecordSet\<close> on them, yield the record.
\<close>

fun rows_loop ::
  "'a engine \<Rightarrow> 'a DiGraph \<Rightarrow> operation \<Rightarrow> 'a kwargs \<Rightarrow> 'a pyval list \<Rightarrow> 'a exec
     \<Rightarrow> exn option \<times> 'a exec" where
  "rows_loop env g operation kw [] st = (None, st)"
| "rows_loop env g operation kw (line # lines) st =
     (case read_fields_loop env line kw (successors g operation) [] st of
        (Inl e, st') \<Rightarrow> (Some e, st')
      | (Inr read_fields, st') \<Rightarrow>
          (case invoke env operation read_fields kw st' of
             (Inl e, st'') \<Rightarrow> (Some e, st'')
           | (Inr record, st'') \<Rightarrow>
               rows_loop env g operation kw lines (st''\<lparr>yielded := yielded st'' @ [record]\<rparr>)))"

text \<open>
  The body of the outer \<open>for\<close> loop for one operation. \<open>None\<close> means the loop goes on
  (also after \<open>continue\<close>), \<open>Some e\<close> that the iteration ends with the exception \<open>e\<close>.
\<close>

fun step ::
  "'a engine \<Rightarrow> 'a DiGraph \<Rightarrow> string \<Rightarrow> operation \<Rightarrow> 'a exec \<Rightarrow> exn option \<times> 'a exec" where
  "step env g record_set (GroupRecordSet node) st =
     (let kw = get_kwargs g (GroupRecordSet node);
          previous = previous_results g (results st) (GroupRecordSet node)
      in if name node \<noteq> record_set then (None, st)
         else if length previous \<noteq> 1 then (Some AssertionError, st)
         else (case hd previous of
                 DataFrame lines \<Rightarrow> rows_loop env g (GroupRecordSet node) kw lines st
               | _ \<Rightarrow> (Some AttributeError, st)))"
| "step env g record_set operation st =
     (let kw = get_kwargs g operation;
          previous = previous_results g (results st) operation
      in if is_ReadField operation \<and> previous = [] then (None, st)
         else (case invoke env operation previous kw st of
                 (Inl e, st') \<Rightarrow> (Some e, st')
               | (Inr v, st') \<Rightarrow> (None, st'\<lparr>results := (results st')(operation \<mapsto> v)\<rparr>)))"

fun iter_loop ::
  "'a engine \<Rightarrow> 'a DiGraph \<Rightarrow> string \<Rightarrow> operation list \<Rightarrow> 'a exec \<Rightarrow> exn option \<times> 'a exec" where
  "iter_loop env g record_set [] st = (None, st)"
| "iter_loop env g record_set (operation # rest) st =
     (case step env g record_set operation st of
        (Some e, st') \<Rightarrow> (Some e, st')
      | (None, st') \<Rightarrow> iter_loop env g record_set rest st')"

subsection \<open>The engine over operation objects that keep state\<close>







text \<open>
  The \<open>Dataset\<close> once \<open>__post_init__\<close> has run: \<open>file\<close> holds the loaded document,
  \<open>operations\<close> the computation graph or \<open>None\<close>. (Its \<open>validator\<close> attribute is read
  by nothing in the module and is left out.)
\<close>

record ('d, 'a) Dataset =
  dataset_file :: 'd
  operations :: "'a ComputationGraph option"

record ('d, 'a) Records =
  dataset :: "('d, 'a) Dataset"
  record_set :: string

text \<open>\<open>Dataset.records\<close>: builds the view and does nothing else.\<close>

definition records :: "('d, 'a) Dataset \<Rightarrow> string \<Rightarrow> ('d, 'a) Records" where
  "records ds rs = \<lparr>dataset = ds, record_set = rs\<rparr>"

text \<open>
  \<open>Records.__iter__\<close>, run to its end: the exception that ended it, if any, and the
  final state, whose \<open>yielded\<close> is the sequence the caller saw before that.
  \<open>self.dataset.operations.graph\<close> on \<open>None\<close> raises \<open>AttributeError\<close>.
\<close>

definition Records_iter ::
  "'a engine \<Rightarrow> ('d, 'a) Records \<Rightarrow> exn option \<times> 'a exec" where
  "Records_iter env r =
     (case operations (dataset r) of
        None \<Rightarrow> (Some AttributeError, init_exec)
      | Some cg \<Rightarrow>
          (let g = graph_of cg; (order, unfeasible) = topological_sort env g
           in case iter_loop env g (record_set r) order init_exec of
                (Some e, st) \<Rightarrow> (Some e, st)
              | (None, st) \<Rightarrow> (unfeasible, st)))"


subsection \<open>The issue ledger\<close>

text \<open>
  Modelled from the spec: the class \<open>Issues\<close> of \<open>ml_croissant/_src/core/issues.py\<close> is
  not among the sources. The ledger is an ordered, append-only sequence of issues,
  each with a severity, a node (or none) and a message; \<open>errors\<close> and \<open>warnings\<close> are
  its issues of either severity. Its \<open>report()\<close> is a parameter below.
\<close>

datatype severity = Error | Warning

record Issue =
  severity :: severity
  issue_node :: "string option"
  message :: string

type_synonym Issues = "Issue list"

definition errors :: "Issues \<Rightarrow> Issue list" where
  "errors iss = filter (\<lambda>i. severity i = Error) iss"

definition warnings :: "Issues \<Rightarrow> Issue list" where
  "warnings iss = filter (\<lambda>i. severity i = Warning) iss"

subsection \<open>Loading the file and static analysis\<close>

text \<open>
  The collaborators of the validator. A path is a string; \<open>resolve\<close> is
  \<open>epath.Path(filepath).expanduser().resolve()\<close>, \<open>open_json\<close> is opening the file
  and \<open>json.load\<close>, \<open>parent\<close> is \<open>file_path.parent\<close>. \<open>load_rdf_graph\<close> gives the RDF graph
  and its networkx form. The checks and the compiler take the ledger and give it
  back with the issues they recorded, whether they return or raise; \<open>from_nodes\<close>
  reads the namespace manager off the RDF graph it is given.
\<close>

record ('d, 'r, 'x, 'n, 's, 'a) analysis =
  resolve :: "string \<Rightarrow> string"
  exists :: "string \<Rightarrow> bool"
  open_json :: "string \<Rightarrow> exn + 'd"
  parent :: "string \<Rightarrow> string"
  load_rdf_graph :: "'d \<Rightarrow> exn + ('r \<times> 'x)"
  check_rdf_graph :: "Issues \<Rightarrow> 'x \<Rightarrow> (exn + 'n) \<times> Issues"
  build_structure_graph :: "Issues \<Rightarrow> 'n \<Rightarrow> (exn + (Node \<times> 's)) \<times> Issues"
  from_nodes :: "Issues \<Rightarrow> Node \<Rightarrow> 's \<Rightarrow> string \<Rightarrow> 'r \<Rightarrow> (exn + 'a ComputationGraph) \<times> Issues"
  check_graph :: "Issues \<Rightarrow> 'a ComputationGraph \<Rightarrow> exn option \<times> Issues"
  report :: "Issues \<Rightarrow> string"

definition load_file ::
  "('d, 'r, 'x, 'n, 's, 'a) analysis \<Rightarrow> string \<Rightarrow> exn + (string \<times> 'd)" where
  "load_file env filepath =
     (let filepath = resolve env filepath
      in if \<not> exists env filepath
         then Inl (ValueError (''File '' @ filepath @ '' does not exist.''))
         else (case open_json env filepath of
                 Inl e \<Rightarrow> Inl e
               | Inr d \<Rightarrow> Inr (filepath, d)))"

text \<open>
  The \<open>Validator\<close> object, with two fields of bookkeeping that the claims speak
  about: \<open>warned\<close>, what \<open>logging.warning\<close> was called with, and \<open>entered\<close>, the
  collaborators called so far. The field \<open>file\<close> is unset until the file is loaded.
\<close>

datatype stage = Load_rdf_graph | Check_rdf_graph | Build_structure_graph | From_nodes | Check_graph

record ('d, 'a) Validator =
  file_or_file_path :: string
  issues :: Issues
  validator_file :: "'d option"
  validator_operations :: "'a ComputationGraph option"
  warned :: "string list"
  entered :: "stage list"

text \<open>\<open>Validator(file)\<close>: an empty ledger, no file, no operations.\<close>

definition new_Validator :: "string \<Rightarrow> ('d, 'a) Validator" where
  "new_Validator path =
     \<lparr>file_or_file_path = path, issues = [], validator_file = None,
      validator_operations = None, warned = [], entered = []\<rparr>"

definition enter :: "stage \<Rightarrow> ('d, 'a) Validator \<Rightarrow> ('d, 'a) Validator" where
  "enter s v = v\<lparr>entered := entered v @ [s]\<rparr>"

text \<open>How the \<open>try\<close> block ends: with an exception, at the \<open>return\<close>, or at its last line.\<close>

datatype completion = Raised exn | Returned | Completed

text \<open>Lines 61 to 68: compile the computation graph, keep it, check it.\<close>

definition compile_and_check ::
  "('d, 'r, 'x, 'n, 's, 'a) analysis \<Rightarrow> ('d, 'a) Validator \<Rightarrow> Node \<Rightarrow> 's \<Rightarrow> string \<Rightarrow> 'r
     \<Rightarrow> completion \<times> ('d, 'a) Validator" where
  "compile_and_check env v entry_node structure_graph file_path rdf_graph =
     (case from_nodes env (issues v) entry_node structure_graph (parent env file_path) rdf_graph of
        (Inl e, iss) \<Rightarrow> (Raised e, (enter From_nodes v)\<lparr>issues := iss\<rparr>)
      | (Inr cg, iss) \<Rightarrow>
          (let v1 = (enter From_nodes v)\<lparr>issues := iss, validator_operations := Some cg\<rparr>
           in case check_graph env (issues v1) cg of
                (Some e, iss') \<Rightarrow> (Raised e, (enter Check_graph v1)\<lparr>issues := iss'\<rparr>)
              | (None, iss') \<Rightarrow> (Completed, (enter Check_graph v1)\<lparr>issues := iss'\<rparr>)))"

text \<open>Lines 54 to 60: check the RDF graph, build the structure graph, the feature toggle.\<close>

definition check_and_build ::
  "('d, 'r, 'x, 'n, 's, 'a) analysis \<Rightarrow> ('d, 'a) Validator \<Rightarrow> string \<Rightarrow> 'r \<Rightarrow> 'x
     \<Rightarrow> completion \<times> ('d, 'a) Validator" where
  "check_and_build env v file_path rdf_graph rdf_nx_graph =
     (case check_rdf_graph env (issues v) rdf_nx_graph of
        (Inl e, iss) \<Rightarrow> (Raised e, (enter Check_rdf_graph v)\<lparr>issues := iss\<rparr>)
      | (Inr nodes', iss) \<Rightarrow>
          (let v1 = (enter Check_rdf_graph v)\<lparr>issues := iss\<rparr>
           in case build_structure_graph env (issues v1) nodes' of
                (Inl e, iss') \<Rightarrow> (Raised e, (enter Build_structure_graph v1)\<lparr>issues := iss'\<rparr>)
              | (Inr (entry_node, structure_graph), iss') \<Rightarrow>
                  (let v2 = (enter Build_structure_graph v1)\<lparr>issues := iss'\<rparr>
                   in if uid entry_node = ''Movielens-25M'' then (Returned, v2)
                      else compile_and_check env v2 entry_node structure_graph file_path rdf_graph)))"

text \<open>The whole \<open>try\<close> block, lines 51 to 68.\<close>

definition try_block ::
  "('d, 'r, 'x, 'n, 's, 'a) analysis \<Rightarrow> ('d, 'a) Validator \<Rightarrow> completion \<times> ('d, 'a) Validator" where
  "try_block env v =
     (case load_file env (file_or_file_path v) of
        Inl e \<Rightarrow> (Raised e, v)
      | Inr (file_path, d) \<Rightarrow>
          (let v1 = v\<lparr>validator_file := Some d\<rparr>
           in case load_rdf_graph env d of
                Inl e \<Rightarrow> (Raised e, enter Load_rdf_graph v1)
              | Inr (rdf_graph, rdf_nx_graph) \<Rightarrow>
                  check_and_build env (enter Load_rdf_graph v1) file_path rdf_graph rdf_nx_graph))"

text \<open>
  \<open>Validator.run_static_analysis\<close>: the exception it raises, if any, and the
  validator afterwards. The handler is \<open>except Exception\<close>: an exception that is
  not an \<open>Exception\<close> passes through it untouched. The \<open>return\<close> inside the \<open>try\<close> block
  leaves the method, so the two tests after the block are not reached then.
\<close>

definition run_static_analysis ::
  "('d, 'r, 'x, 'n, 's, 'a) analysis \<Rightarrow> ('d, 'a) Validator \<Rightarrow> exn option \<times> ('d, 'a) Validator" where
  "run_static_analysis env v =
     (case try_block env v of
        (Raised e, v') \<Rightarrow>
          if is_Exception e
          then if errors (issues v') \<noteq> []
               then (Some (ValidationError (report env (issues v'))), v')
               else (Some e, v')
          else (Some e, v')
      | (Returned, v') \<Rightarrow> (None, v')
      | (Completed, v') \<Rightarrow>
          if errors (issues v') \<noteq> [] then (Some (ValidationError (report env (issues v'))), v')
          else if warnings (issues v') \<noteq> []
          then (None, v'\<lparr>warned := warned v' @ [report env (issues v')]\<rparr>)
          else (None, v'))"

text \<open>
  \<open>Dataset(file)\<close>: \<open>__post_init__\<close> runs the static analysis of a new validator and
  copies its \<open>file\<close> and \<open>operations\<close>; an exception of the analysis leaves no
  \<open>Dataset\<close>. Reading an unset \<open>file\<close> would raise \<open>AttributeError\<close>.
\<close>

definition Dataset_post_init ::
  "('d, 'r, 'x, 'n, 's, 'a) analysis \<Rightarrow> string \<Rightarrow> exn + ('d, 'a) Dataset" where
  "Dataset_post_init env path =
     (case run_static_analysis env (new_Validator path) of
        (Some e, v) \<Rightarrow> Inl e
      | (None, v) \<Rightarrow>
          (case validator_file v of
             None \<Rightarrow> Inl AttributeError
           | Some d \<Rightarrow> Inr \<lparr>dataset_file = d, operations = validator_operations v\<rparr>))"

subsection \<open>A small dataset to run the engine on\<close>

text \<open>
  One CSV file with two rows (a user and a score each), read into two record sets:
  \<open>ratings\<close> with the fields \<open>user\<close> and \<open>score\<close>, and \<open>users\<close> with the field \<open>user\<close>.
  The payload of an object is a list of numbers. The order of the nodes is a
  topological order, and the sort returns it.
\<close>

definition download :: operation where
  "download = Operation ''Download'' \<lparr>uid = ''ratings.csv'', name = ''ratings.csv''\<rparr>"

definition read_csv :: operation where
  "read_csv = Operation ''ReadCsv'' \<lparr>uid = ''ratings.csv'', name = ''ratings.csv''\<rparr>"

definition ratings :: operation where
  "ratings = GroupRecordSet \<lparr>uid = ''ratings'', name = ''ratings''\<rparr>"

definition ratings_user :: operation where
  "ratings_user = ReadField \<lparr>uid = ''ratings/user'', name = ''user''\<rparr>"

definition ratings_score :: operation where
  "ratings_score = ReadField \<lparr>uid = ''ratings/score'', name = ''score''\<rparr>"

definition users :: operation where
  "users = GroupRecordSet \<lparr>uid = ''users'', name = ''users''\<rparr>"

definition users_user :: operation where
  "users_user = ReadField \<lparr>uid = ''users/user'', name = ''user''\<rparr>"

definition example_graph :: "nat list DiGraph" where
  "example_graph =
     \<lparr>nodes = [(download, None), (read_csv, None), (ratings, Some []), (ratings_user, None),
               (ratings_score, None), (users, None), (users_user, None)],
      edges = [(download, read_csv), (read_csv, ratings), (ratings, ratings_user),
               (ratings, ratings_score), (read_csv, users), (users, users_user)]\<rparr>"

fun payload :: "nat list pyval \<Rightarrow> nat list" where
  "payload (PyObj x) = x"
| "payload v = []"

fun example_call :: "operation \<Rightarrow> nat list pyval list \<Rightarrow> nat list kwargs \<Rightarrow> exn + nat list pyval" where
  "example_call (Operation c n) args kw =
     (if c = ''Download'' then Inr (PyObj [])
      else if c = ''ReadCsv'' then Inr (DataFrame [PyObj [7, 5], PyObj [8, 3]])
      else Inl (Failure c))"
| "example_call (ReadField n) [PyObj row] kw =
     Inr (PyObj (take 1 (if name n = ''user'' then row else drop 1 row)))"
| "example_call (ReadField n) args kw = Inl (Failure ''ReadField'')"
| "example_call (GroupRecordSet n) args kw = Inr (PyObj (concat (map payload args)))"

definition example_engine :: "nat list engine" where
  "example_engine = \<lparr>call = example_call, topological_sort = (\<lambda>g. (map fst (nodes g), None))\<rparr>"

definition example_dataset :: "(unit, nat list) Dataset" where
  "example_dataset = \<lparr>dataset_file = (), operations = Some \<lparr>graph_of = example_graph\<rparr>\<rparr>"

text \<open>What the two \<open>ReadField\<close> operations of \<open>ratings\<close> return on a row.\<close>

definition example_field :: "operation \<Rightarrow> nat list pyval \<Rightarrow> nat list pyval" where
  "example_field rf line =
     PyObj (take 1 (if rf = ratings_user then payload line else drop 1 (payload line)))"


text \<open>
  Collaborators for the validator: two files exist, \<open>ratings.json\<close> (document 0,
  which compiles to the graph above and gets one warning) and \<open>movielens.json\<close>
  (document 1, whose entry node is \<open>Movielens-25M\<close> and for which building the
  structure graph records one error).
\<close>

definition example_analysis :: "(nat, nat, nat, nat, unit, nat list) analysis" where
  "example_analysis =
     \<lparr>resolve = (\<lambda>p. ''/data/'' @ p),
      exists = (\<lambda>p. p = ''/data/ratings.json'' \<or> p = ''/data/movielens.json''),
      open_json = (\<lambda>p. Inr (if p = ''/data/movielens.json'' then 1 else 0)),
      parent = (\<lambda>p. ''/data''),
      load_rdf_graph = (\<lambda>d. Inr (d, d)),
      check_rdf_graph = (\<lambda>iss x. (Inr x, iss)),
      build_structure_graph = (\<lambda>iss n.
        if n = 1
        then (Inr (\<lparr>uid = ''Movielens-25M'', name = ''MovieLens''\<rparr>, ()),
              iss @ [\<lparr>severity = Error, issue_node = Some ''Movielens-25M'',
                      message = ''Property name is mandatory, but does not exist.''\<rparr>])
        else (Inr (\<lparr>uid = ''ratings'', name = ''Ratings''\<rparr>, ()), iss)),
      from_nodes = (\<lambda>iss entry_node structure_graph folder rdf_graph.
        (Inr \<lparr>graph_of = example_graph\<rparr>, iss)),
      check_graph = (\<lambda>iss cg.
        (None, iss @ [\<lparr>severity = Warning, issue_node = None, message = ''No license.''\<rparr>])),
      report = (\<lambda>iss. concat (map message iss))\<rparr>"

lemmas example_defs = download_def read_csv_def ratings_def ratings_user_def ratings_score_def
  users_def users_user_def example_graph_def example_engine_def example_dataset_def

section \<open>Properties of the execution engine\<close>

subsection \<open>Predecessors and what one step does\<close>

lemma previous_results_map_filter:
  "previous_results g res operation =
     List.map_filter (\<lambda>p. case res p of None \<Rightarrow> None | Some PyNone \<Rightarrow> None | Some v \<Rightarrow> Some v)
       (predecessors g operation)"
proof -
  have "[the (res p). p \<leftarrow> ps, res p \<noteq> None \<and> res p \<noteq> Some PyNone] =
        List.map_filter (\<lambda>p. case res p of None \<Rightarrow> None | Some PyNone \<Rightarrow> None | Some v \<Rightarrow> Some v) ps" for ps
    by (induction ps) (auto simp: List.map_filter_simps split: option.splits pyval.splits)
  then show ?thesis by (simp add: previous_results_def)
qed

lemma in_predecessors: "p \<in> set (predecessors g v) \<longleftrightarrow> (p, v) \<in> set (edges g)"
  by (auto simp: predecessors_def)

lemma in_successors: "s \<in> set (successors g v) \<longleftrightarrow> (v, s) \<in> set (edges g)"
  by (auto simp: successors_def)

lemma set_previous_results:
  "v \<in> set (previous_results g res operation) \<longleftrightarrow>
     (\<exists>p. (p, operation) \<in> set (edges g) \<and> res p = Some v \<and> v \<noteq> PyNone)"
proof
  assume "v \<in> set (previous_results g res operation)"
  then show "\<exists>p. (p, operation) \<in> set (edges g) \<and> res p = Some v \<and> v \<noteq> PyNone"
    by (auto simp: previous_results_def in_predecessors)
next
  assume "\<exists>p. (p, operation) \<in> set (edges g) \<and> res p = Some v \<and> v \<noteq> PyNone"
  then obtain p where p: "p \<in> set (predecessors g operation)" "res p = Some v" "v \<noteq> PyNone"
    by (auto simp: in_predecessors)
  then have "p \<in> {p \<in> set (predecessors g operation). res p \<noteq> None \<and> res p \<noteq> Some PyNone}"
    by simp
  moreover have "the (res p) = v" using p by simp
  ultimately show "v \<in> set (previous_results g res operation)"
    by (force simp: previous_results_def)
qed

lemma step_plain:
  assumes "\<forall>n. operation \<noteq> GroupRecordSet n"
  shows "step env g rs operation st =
      (if is_ReadField operation \<and> previous_results g (results st) operation = [] then (None, st)
       else (case call env operation (previous_results g (results st) operation) (get_kwargs g operation) of
               Inl e \<Rightarrow> (Some e, st\<lparr>invoked := invoked st @
                   [(operation, previous_results g (results st) operation, get_kwargs g operation)]\<rparr>)
             | Inr v \<Rightarrow> (None, st\<lparr>invoked := invoked st @
                   [(operation, previous_results g (results st) operation, get_kwargs g operation)],
                 results := (results st)(operation \<mapsto> v)\<rparr>)))"
  using assms by (cases operation) (auto simp: Let_def invoke_def split: sum.splits)

subsection \<open>What the loops leave unchanged\<close>

lemma read_fields_loop_frame:
  "read_fields_loop env line kw rfs acc st = (res, st') \<Longrightarrow>
     results st' = results st \<and> yielded st' = yielded st \<and>
     (\<exists>extra. invoked st' = invoked st @ extra \<and> (\<forall>x \<in> set extra. is_ReadField (fst x)))"
proof (induction rfs arbitrary: acc st)
  case Nil
  then show ?case by simp
next
  case (Cons rf rfs)
  show ?case
  proof (cases "is_ReadField rf")
    case False
    with Cons.prems show ?thesis by simp
  next
    case True
    show ?thesis
    proof (cases "call env rf [line] kw")
      case (Inl e)
      with Cons.prems True show ?thesis by (auto simp: invoke_def)
    next
      case (Inr v)
      let ?st1 = "st\<lparr>invoked := invoked st @ [(rf, [line], kw)]\<rparr>"
      from Cons.prems True Inr
      have "read_fields_loop env line kw rfs (acc @ [v]) ?st1 = (res, st')"
        by (simp add: invoke_def)
      from Cons.IH [OF this] True show ?thesis by auto
    qed
  qed
qed

lemma rows_loop_frame:
  "rows_loop env g operation kw lines st = (res, st') \<Longrightarrow>
     results st' = results st \<and>
     (\<exists>ys. yielded st' = yielded st @ ys) \<and>
     (\<exists>extra. invoked st' = invoked st @ extra \<and>
        (\<forall>x \<in> set extra. is_ReadField (fst x) \<or> fst x = operation))"
proof (induction lines arbitrary: st)
  case Nil
  then show ?case by simp
next
  case (Cons line lines)
  obtain r1 st1 where r1: "read_fields_loop env line kw (successors g operation) [] st = (r1, st1)"
    by (cases "read_fields_loop env line kw (successors g operation) [] st")
  note f1 = read_fields_loop_frame [OF r1]
  show ?case
  proof (cases r1)
    case (Inl e)
    with Cons.prems r1 have "st' = st1" by simp
    with f1 show ?thesis by auto
  next
    case (Inr read_fields)
    note rf = this
    show ?thesis
    proof (cases "call env operation read_fields kw")
      case (Inl e)
      with Cons.prems r1 rf have "st' = st1\<lparr>invoked := invoked st1 @ [(operation, read_fields, kw)]\<rparr>"
        by (simp add: invoke_def)
      with f1 show ?thesis by auto
    next
      case (Inr rcd)
      let ?st2 = "st1\<lparr>invoked := invoked st1 @ [(operation, read_fields, kw)],
                      yielded := yielded st1 @ [rcd]\<rparr>"
      from Cons.prems r1 rf Inr
      have "rows_loop env g operation kw lines ?st2 = (res, st')"
        by (simp add: invoke_def)
      from Cons.IH [OF this] f1 show ?thesis by auto
    qed
  qed
qed

lemma step_group:
  "step env g rs (GroupRecordSet n) st = (res, st') \<Longrightarrow>
     results st' = results st \<and>
     (\<exists>ys. yielded st' = yielded st @ ys) \<and>
     (\<exists>extra. invoked st' = invoked st @ extra \<and>
        (\<forall>x \<in> set extra. is_ReadField (fst x) \<or> fst x = GroupRecordSet n))"
proof -
  assume s: "step env g rs (GroupRecordSet n) st = (res, st')"
  let ?prev = "previous_results g (results st) (GroupRecordSet n)"
  show ?thesis
  proof (cases "name n = rs \<and> length ?prev = 1")
    case False
    with s show ?thesis by (auto simp: Let_def split: if_splits)
  next
    case True
    show ?thesis
    proof (cases "hd ?prev")
      case (DataFrame lines)
      with s True
      have "rows_loop env g (GroupRecordSet n) (get_kwargs g (GroupRecordSet n)) lines st = (res, st')"
        by (simp add: Let_def)
      from rows_loop_frame [OF this] show ?thesis .
    next
      case PyNone
      with s True show ?thesis by (auto simp: Let_def)
    next
      case (PyObj a)
      with s True show ?thesis by (auto simp: Let_def)
    qed
  qed
qed

text \<open>
  Whatever one step invokes, a \<open>GroupRecordSet\<close> among it bears the target's name.
\<close>

lemma step_frame:
  assumes "step env g rs operation st = (res, st')"
  shows "\<exists>extra. invoked st' = invoked st @ extra \<and>
           (\<forall>x \<in> set extra. \<forall>n. fst x = GroupRecordSet n \<longrightarrow> name n = rs)"
proof (cases "\<exists>n. operation = GroupRecordSet n")
  case True
  then obtain n where n: "operation = GroupRecordSet n" by blast
  from step_group [OF assms [unfolded n]] obtain extra where
    e: "invoked st' = invoked st @ extra"
       "\<forall>x \<in> set extra. is_ReadField (fst x) \<or> fst x = GroupRecordSet n"
    by blast
  show ?thesis
  proof (cases "name n = rs")
    case True
    have "\<forall>x \<in> set extra. \<forall>n'. fst x = GroupRecordSet n' \<longrightarrow> name n' = rs"
    proof (intro ballI allI impI)
      fix x n' assume "x \<in> set extra" "fst x = GroupRecordSet n'"
      with e(2) have "n' = n" by auto
      with True show "name n' = rs" by simp
    qed
    with e(1) show ?thesis by blast
  next
    case False
    with assms n have "st' = st" by simp
    then show ?thesis by simp
  qed
next
  case False
  then have plain: "\<forall>n. operation \<noteq> GroupRecordSet n" by blast
  from assms show ?thesis
    unfolding step_plain [OF plain] using plain
    by (auto split: if_splits sum.splits)
qed

lemma iter_loop_frame:
  "iter_loop env g rs ops st = (res, st') \<Longrightarrow>
     \<exists>extra. invoked st' = invoked st @ extra \<and>
        (\<forall>x \<in> set extra. \<forall>n. fst x = GroupRecordSet n \<longrightarrow> name n = rs)"
proof (induction ops arbitrary: st)
  case Nil
  then show ?case by simp
next
  case (Cons operation ops)
  obtain r1 st1 where s1: "step env g rs operation st = (r1, st1)"
    by (cases "step env g rs operation st")
  from step_frame [OF s1] obtain e1 where
    e1: "invoked st1 = invoked st @ e1"
        "\<forall>x \<in> set e1. \<forall>n. fst x = GroupRecordSet n \<longrightarrow> name n = rs"
    by blast
  show ?case
  proof (cases r1)
    case (Some e)
    with Cons.prems s1 have "st' = st1" by simp
    with e1 show ?thesis by blast
  next
    case None
    with Cons.prems s1 have "iter_loop env g rs ops st1 = (res, st')" by simp
    from Cons.IH [OF this] obtain e2 where
      e2: "invoked st' = invoked st1 @ e2"
          "\<forall>x \<in> set e2. \<forall>n. fst x = GroupRecordSet n \<longrightarrow> name n = rs"
      by blast
    from e1 e2 have "invoked st' = invoked st @ (e1 @ e2)" by simp
    moreover from e1(2) e2(2)
    have "\<forall>x \<in> set (e1 @ e2). \<forall>n. fst x = GroupRecordSet n \<longrightarrow> name n = rs" by auto
    ultimately show ?thesis by blast
  qed
qed

lemma Records_iter_invoked:
  assumes "(operation, args, kw) \<in> set (invoked (snd (Records_iter env r)))"
      and "operation = GroupRecordSet n"
  shows "name n = record_set r"
proof (cases "operations (dataset r)")
  case None
  with assms show ?thesis by (simp add: Records_iter_def init_exec_def)
next
  case (Some cg)
  obtain order unf where ts: "topological_sort env (graph_of cg) = (order, unf)"
    by (cases "topological_sort env (graph_of cg)")
  obtain res st' where il: "iter_loop env (graph_of cg) (record_set r) order init_exec = (res, st')"
    by (cases "iter_loop env (graph_of cg) (record_set r) order init_exec")
  have "snd (Records_iter env r) = st'"
    using Some ts il by (cases res) (simp_all add: Records_iter_def)
  moreover from iter_loop_frame [OF il] obtain extra where
    "invoked st' = extra" "\<forall>x \<in> set extra. \<forall>n. fst x = GroupRecordSet n \<longrightarrow> name n = record_set r"
    by (auto simp: init_exec_def)
  ultimately show ?thesis using assms by force
qed

subsection \<open>Every cached result is the result of a call that was made\<close>

lemma cached_extend:
  assumes inv: "\<forall>p v. results st p = Some v \<longrightarrow>
                  (\<exists>args kw. (p, args, kw) \<in> set (invoked st) \<and> call env p args kw = Inr v)"
      and fr: "results st' = results st" "invoked st' = invoked st @ extra"
  shows "\<forall>p v. results st' p = Some v \<longrightarrow>
           (\<exists>args kw. (p, args, kw) \<in> set (invoked st') \<and> call env p args kw = Inr v)"
proof (intro allI impI)
  fix p w assume "results st' p = Some w"
  with fr have "results st p = Some w" by simp
  with inv obtain args kw where
    "(p, args, kw) \<in> set (invoked st)" "call env p args kw = Inr w" by blast
  with fr show "\<exists>args kw. (p, args, kw) \<in> set (invoked st') \<and> call env p args kw = Inr w"
    by auto
qed

lemma step_cached:
  assumes inv: "\<forall>p v. results st p = Some v \<longrightarrow>
                  (\<exists>args kw. (p, args, kw) \<in> set (invoked st) \<and> call env p args kw = Inr v)"
      and s: "step env g rs operation st = (res, st')"
  shows "\<forall>p v. results st' p = Some v \<longrightarrow>
           (\<exists>args kw. (p, args, kw) \<in> set (invoked st') \<and> call env p args kw = Inr v)"
proof (cases "\<exists>n. operation = GroupRecordSet n")
  case True
  then obtain n where n: "operation = GroupRecordSet n" by blast
  from step_group [OF s [unfolded n]] obtain extra where
    "results st' = results st" "invoked st' = invoked st @ extra" by blast
  from cached_extend [OF inv this] show ?thesis .
next
  case False
  let ?prev = "previous_results g (results st) operation"
  let ?kw = "get_kwargs g operation"
  from False have plain: "\<forall>n. operation \<noteq> GroupRecordSet n" by blast
  note unfold = step_plain [OF plain, of env g rs st]
  show ?thesis
  proof (cases "is_ReadField operation \<and> ?prev = []")
    case True
    with s unfold inv show ?thesis by simp
  next
    case skip: False
    show ?thesis
    proof (cases "call env operation ?prev ?kw")
      case (Inl e)
      with s unfold skip have "st' = st\<lparr>invoked := invoked st @ [(operation, ?prev, ?kw)]\<rparr>"
        by auto
      then have "results st' = results st" "invoked st' = invoked st @ [(operation, ?prev, ?kw)]"
        by simp_all
      from cached_extend [OF inv this] show ?thesis .
    next
      case (Inr v)
      with s unfold skip
      have st': "st' = st\<lparr>invoked := invoked st @ [(operation, ?prev, ?kw)],
                          results := (results st)(operation \<mapsto> v)\<rparr>"
        by auto
      show ?thesis
      proof (intro allI impI)
        fix p w assume pw: "results st' p = Some w"
        show "\<exists>args kw. (p, args, kw) \<in> set (invoked st') \<and> call env p args kw = Inr w"
        proof (cases "p = operation")
          case True
          with pw st' Inr have "(p, ?prev, ?kw) \<in> set (invoked st')" "call env p ?prev ?kw = Inr w"
            by simp_all
          then show ?thesis by blast
        next
          case False
          with pw st' have "results st p = Some w" by simp
          with inv obtain args kw where
            "(p, args, kw) \<in> set (invoked st)" "call env p args kw = Inr w" by blast
          with st' have "(p, args, kw) \<in> set (invoked st')" "call env p args kw = Inr w"
            by simp_all
          then show ?thesis by blast
        qed
      qed
    qed
  qed
qed

lemma iter_loop_cached:
  "iter_loop env g rs ops st = (res, st') \<Longrightarrow>
   \<forall>p v. results st p = Some v \<longrightarrow>
      (\<exists>args kw. (p, args, kw) \<in> set (invoked st) \<and> call env p args kw = Inr v) \<Longrightarrow>
   \<forall>p v. results st' p = Some v \<longrightarrow>
      (\<exists>args kw. (p, args, kw) \<in> set (invoked st') \<and> call env p args kw = Inr v)"
proof (induction ops arbitrary: st)
  case Nil
  then show ?case by simp
next
  case (Cons operation ops)
  obtain r1 st1 where s1: "step env g rs operation st = (r1, st1)"
    by (cases "step env g rs operation st")
  note inv1 = step_cached [OF Cons.prems(2) s1]
  show ?case
  proof (cases r1)
    case (Some e)
    with Cons.prems(1) s1 have "st' = st1" by simp
    with inv1 show ?thesis by simp
  next
    case None
    with Cons.prems(1) s1 have "iter_loop env g rs ops st1 = (res, st')" by simp
    from Cons.IH [OF this inv1] show ?thesis .
  qed
qed

subsection \<open>Walking operations that are not the target's \<open>GroupRecordSet\<close>\<close>

lemma in_group_names:
  "GroupRecordSet n \<in> fst ` set (nodes g) \<Longrightarrow> name n \<in> set (group_names g)"
  by (force simp: group_names_def)

lemma iter_loop_append:
  "iter_loop env g rs (xs @ ys) st =
     (case iter_loop env g rs xs st of
        (Some e, st') \<Rightarrow> (Some e, st')
      | (None, st') \<Rightarrow> iter_loop env g rs ys st')"
  by (induction xs arbitrary: st) (auto split: prod.splits option.splits)

lemma step_no_yield:
  assumes "\<forall>n. operation = GroupRecordSet n \<longrightarrow> name n \<noteq> rs"
      and "step env g rs operation st = (res, st')"
  shows "yielded st' = yielded st"
proof (cases "\<exists>n. operation = GroupRecordSet n")
  case True
  with assms show ?thesis by auto
next
  case False
  then have plain: "\<forall>n. operation \<noteq> GroupRecordSet n" by blast
  from assms(2) show ?thesis
    unfolding step_plain [OF plain] by (auto split: if_splits sum.splits)
qed

lemma iter_loop_no_yield:
  "\<forall>n. GroupRecordSet n \<in> set ops \<longrightarrow> name n \<noteq> rs \<Longrightarrow>
   iter_loop env g rs ops st = (res, st') \<Longrightarrow> yielded st' = yielded st"
proof (induction ops arbitrary: st)
  case Nil
  then show ?case by simp
next
  case (Cons operation ops)
  obtain r1 st1 where s1: "step env g rs operation st = (r1, st1)"
    by (cases "step env g rs operation st")
  from Cons.prems(1) have "\<forall>n. operation = GroupRecordSet n \<longrightarrow> name n \<noteq> rs" by simp
  from step_no_yield [OF this s1] have y1: "yielded st1 = yielded st" .
  show ?case
  proof (cases r1)
    case (Some e)
    with Cons.prems(2) s1 y1 show ?thesis by simp
  next
    case None
    with Cons.prems(2) s1 have "iter_loop env g rs ops st1 = (res, st')" by simp
    moreover from Cons.prems(1) have "\<forall>n. GroupRecordSet n \<in> set ops \<longrightarrow> name n \<noteq> rs" by simp
    ultimately have "yielded st' = yielded st1" by (rule Cons.IH [rotated])
    with y1 show ?thesis by simp
  qed
qed

lemma iter_loop_plain_raises:
  "\<forall>n. GroupRecordSet n \<in> set ops \<longrightarrow> name n \<noteq> rs \<Longrightarrow>
   iter_loop env g rs ops st = (res, st') \<Longrightarrow>
   \<exists>extra. invoked st' = invoked st @ extra \<and>
     (res = None \<longleftrightarrow> (\<forall>(operation, args, kw) \<in> set extra. \<exists>v. call env operation args kw = Inr v))"
proof (induction ops arbitrary: st)
  case Nil
  then show ?case by simp
next
  case (Cons operation ops)
  let ?prev = "previous_results g (results st) operation"
  let ?kw = "get_kwargs g operation"
  from Cons.prems(1) have tail: "\<forall>n. GroupRecordSet n \<in> set ops \<longrightarrow> name n \<noteq> rs" by simp
  show ?case
  proof (cases "step env g rs operation st = (None, st)")
    case True
    with Cons.prems(2) have "iter_loop env g rs ops st = (res, st')" by simp
    from Cons.IH [OF tail this] show ?thesis .
  next
    case False
    with Cons.prems(1) have plain: "\<forall>n. operation \<noteq> GroupRecordSet n"
      by (cases operation) auto
    note unfold = step_plain [OF plain, of env g rs st]
    from False unfold have run: "\<not> (is_ReadField operation \<and> ?prev = [])" by auto
    show ?thesis
    proof (cases "call env operation ?prev ?kw")
      case (Inl e)
      with unfold run Cons.prems(2)
      have "res = Some e" "invoked st' = invoked st @ [(operation, ?prev, ?kw)]" by auto
      with Inl show ?thesis by auto
    next
      case (Inr v)
      let ?st1 = "st\<lparr>invoked := invoked st @ [(operation, ?prev, ?kw)],
                      results := (results st)(operation \<mapsto> v)\<rparr>"
      from Inr unfold run Cons.prems(2) have "iter_loop env g rs ops ?st1 = (res, st')" by auto
      from Cons.IH [OF tail this] obtain extra where
        e: "invoked st' = invoked ?st1 @ extra"
           "res = None \<longleftrightarrow> (\<forall>(operation, args, kw) \<in> set extra. \<exists>v. call env operation args kw = Inr v)"
        by blast
      from e(1) have "invoked st' = invoked st @ ((operation, ?prev, ?kw) # extra)" by simp
      moreover from e(2) Inr
      have "res = None \<longleftrightarrow> (\<forall>(operation, args, kw) \<in> set ((operation, ?prev, ?kw) # extra).
              \<exists>v. call env operation args kw = Inr v)" by simp
      ultimately show ?thesis by blast
    qed
  qed
qed

subsection \<open>The rows of the target's table\<close>

lemma read_fields_loop_ok:
  assumes "\<forall>rf \<in> set rfs. is_ReadField rf \<and> call env rf [line] kw = Inr (fld rf)"
  shows "read_fields_loop env line kw rfs acc st =
           (Inr (acc @ map fld rfs), st\<lparr>invoked := invoked st @ map (\<lambda>rf. (rf, [line], kw)) rfs\<rparr>)"
  using assms by (induction rfs arbitrary: acc st) (simp_all add: invoke_def)

lemma rows_loop_ok:
  assumes "\<forall>rf \<in> set (successors g operation). is_ReadField rf"
      and "\<forall>line \<in> set lines. \<forall>rf \<in> set (successors g operation).
             call env rf [line] kw = Inr (fld rf line)"
      and "\<forall>line \<in> set lines.
             call env operation (map (\<lambda>rf. fld rf line) (successors g operation)) kw = Inr (rcd line)"
  shows "\<exists>st'. rows_loop env g operation kw lines st = (None, st') \<and>
           yielded st' = yielded st @ map rcd lines \<and> results st' = results st"
  using assms(2,3)
proof (induction lines arbitrary: st)
  case Nil
  then show ?case by simp
next
  case (Cons line lines)
  let ?succs = "successors g operation"
  let ?st1 = "st\<lparr>invoked := invoked st @ map (\<lambda>rf. (rf, [line], kw)) ?succs\<rparr>"
  let ?args = "map (\<lambda>rf. fld rf line) ?succs"
  let ?st2 = "?st1\<lparr>invoked := invoked ?st1 @ [(operation, ?args, kw)],
                   yielded := yielded ?st1 @ [rcd line]\<rparr>"
  have "\<forall>rf \<in> set ?succs. is_ReadField rf \<and> call env rf [line] kw = Inr (fld rf line)"
    using assms(1) Cons.prems(1) by simp
  from read_fields_loop_ok [OF this, of "[]" st]
  have rf: "read_fields_loop env line kw ?succs [] st = (Inr ?args, ?st1)" by simp
  have grp: "call env operation ?args kw = Inr (rcd line)"
    using Cons.prems(2) by simp
  have unfold: "rows_loop env g operation kw (line # lines) st = rows_loop env g operation kw lines ?st2"
    using rf grp by (simp add: invoke_def)
  from Cons.prems have
    "\<forall>line \<in> set lines. \<forall>rf \<in> set ?succs. call env rf [line] kw = Inr (fld rf line)"
    "\<forall>line \<in> set lines. call env operation (map (\<lambda>rf. fld rf line) ?succs) kw = Inr (rcd line)"
    by simp_all
  from Cons.IH [OF this, of ?st2] obtain st' where
    "rows_loop env g operation kw lines ?st2 = (None, st')"
    "yielded st' = yielded ?st2 @ map rcd lines" "results st' = results ?st2"
    by blast
  with unfold show ?case by simp
qed

subsection \<open>Objects whose answers do not depend on their state\<close>







section \<open>Properties of the static analysis\<close>

lemmas analysis_defs = run_static_analysis_def try_block_def check_and_build_def
  compile_and_check_def load_file_def new_Validator_def enter_def errors_def warnings_def

lemma compile_and_check_not_Returned:
  "compile_and_check env v entry_node structure_graph file_path rdf_graph \<noteq> (Returned, v')"
  by (auto simp: compile_and_check_def Let_def split: prod.splits sum.splits option.splits)

lemma check_and_build_Returned:
  "check_and_build env v file_path rdf_graph rdf_nx_graph = (Returned, v') \<Longrightarrow>
     validator_operations v' = validator_operations v"
  by (auto simp: check_and_build_def enter_def Let_def compile_and_check_not_Returned
      split: prod.splits sum.splits if_splits)

lemma try_block_Returned:
  "try_block env v = (Returned, v') \<Longrightarrow> validator_operations v' = validator_operations v"
  by (auto simp: try_block_def enter_def Let_def dest!: check_and_build_Returned
      split: prod.splits sum.splits)

section \<open>The claims\<close>

text \<open>
  C3. A \<open>GroupRecordSet\<close> whose node name differs from the target record set is
  skipped entirely: its step ends at \<open>continue\<close> with the state as it was (no
  record yielded, nothing invoked, nothing cached), and over the whole iteration
  it is never called. Only a \<open>GroupRecordSet\<close> named as the target is processed.
\<close>

theorem other_GroupRecordSet_skipped:
  assumes "name n \<noteq> record_set r"
  shows "step env g (record_set r) (GroupRecordSet n) st = (None, st) \<and>
         (\<forall>args kw. (GroupRecordSet n, args, kw) \<notin> set (invoked (snd (Records_iter env r))))"
proof
  from assms show "step env g (record_set r) (GroupRecordSet n) st = (None, st)" by simp
next
  show "\<forall>args kw. (GroupRecordSet n, args, kw) \<notin> set (invoked (snd (Records_iter env r)))"
  proof (intro allI notI)
    fix args kw
    assume "(GroupRecordSet n, args, kw) \<in> set (invoked (snd (Records_iter env r)))"
    from Records_iter_invoked [OF this refl] assms show False by simp
  qed
qed

theorem other_GroupRecordSet_skipped_witness:
  "name \<lparr>uid = ''users'', name = ''users''\<rparr> \<noteq> record_set (records example_dataset ''ratings'') \<and>
   step example_engine example_graph ''ratings'' users init_exec = (None, init_exec) \<and>
   (\<forall>args kw. (users, args, kw) \<notin>
      set (invoked (snd (Records_iter example_engine (records example_dataset ''ratings'')))))"
  using other_GroupRecordSet_skipped [of "\<lparr>uid = ''users'', name = ''users''\<rparr>"
      "records example_dataset ''ratings''" example_engine example_graph init_exec]
  by (simp add: records_def users_def)

text \<open>
  C6. At any point of the walk, the arguments gathered for an operation are
  exactly the cached results of its graph predecessors that are in the cache
  and are not \<open>None\<close>, in the order of the predecessors; every such result was
  returned by a call made earlier in this iteration; predecessors with no
  entry, or with the entry \<open>None\<close>, contribute nothing. An operation that is
  executed is called with exactly this list.
\<close>

theorem gathered_predecessor_results:
  assumes "iter_loop env g rs pre init_exec = (None, st)"
  shows "previous_results g (results st) operation =
           List.map_filter (\<lambda>p. case results st p of None \<Rightarrow> None | Some PyNone \<Rightarrow> None | Some v \<Rightarrow> Some v)
             (predecessors g operation) \<and>
         (\<forall>v. v \<in> set (previous_results g (results st) operation) \<longleftrightarrow>
            (\<exists>p args kw. (p, operation) \<in> set (edges g) \<and> (p, args, kw) \<in> set (invoked st) \<and>
               call env p args kw = Inr v \<and> results st p = Some v \<and> v \<noteq> PyNone)) \<and>
         ((\<forall>n. operation \<noteq> GroupRecordSet n) \<and>
          \<not> (is_ReadField operation \<and> previous_results g (results st) operation = []) \<longrightarrow>
            invoked (snd (step env g rs operation st)) =
              invoked st @ [(operation, previous_results g (results st) operation, get_kwargs g operation)])"
proof (intro conjI allI impI)
  show "previous_results g (results st) operation =
           List.map_filter (\<lambda>p. case results st p of None \<Rightarrow> None | Some PyNone \<Rightarrow> None | Some v \<Rightarrow> Some v)
             (predecessors g operation)"
    by (rule previous_results_map_filter)
next
  fix v
  have inv: "\<forall>p v. results st p = Some v \<longrightarrow>
      (\<exists>args kw. (p, args, kw) \<in> set (invoked st) \<and> call env p args kw = Inr v)"
    by (rule iter_loop_cached [OF assms]) (simp add: init_exec_def)
  show "v \<in> set (previous_results g (results st) operation) \<longleftrightarrow>
            (\<exists>p args kw. (p, operation) \<in> set (edges g) \<and> (p, args, kw) \<in> set (invoked st) \<and>
               call env p args kw = Inr v \<and> results st p = Some v \<and> v \<noteq> PyNone)"
    unfolding set_previous_results using inv by blast
next
  assume a: "(\<forall>n. operation \<noteq> GroupRecordSet n) \<and>
          \<not> (is_ReadField operation \<and> previous_results g (results st) operation = [])"
  then have plain: "\<forall>n. operation \<noteq> GroupRecordSet n" by blast
  from a show "invoked (snd (step env g rs operation st)) =
              invoked st @ [(operation, previous_results g (results st) operation, get_kwargs g operation)]"
    unfolding step_plain [OF plain] by (auto split: sum.splits)
qed

theorem gathered_predecessor_results_witness:
  "iter_loop example_engine example_graph ''ratings'' [download] init_exec =
     (None, \<lparr>results = [download \<mapsto> PyObj []], yielded = [], invoked = [(download, [], [])]\<rparr>) \<and>
   previous_results example_graph [download \<mapsto> PyObj []] read_csv = [PyObj []] \<and>
   invoked (snd (step example_engine example_graph ''ratings'' read_csv
      \<lparr>results = [download \<mapsto> PyObj []], yielded = [], invoked = [(download, [], [])]\<rparr>)) =
     [(download, [], []), (read_csv, [PyObj []], [])]"
proof -
  have pre: "iter_loop example_engine example_graph ''ratings'' [download] init_exec =
     (None, \<lparr>results = [download \<mapsto> PyObj []], yielded = [], invoked = [(download, [], [])]\<rparr>)"
    by (simp add: example_defs init_exec_def Let_def previous_results_def predecessors_def
        get_kwargs_def invoke_def)
  have prev: "previous_results example_graph [download \<mapsto> PyObj []] read_csv = [PyObj []]"
    by (simp add: example_defs previous_results_def predecessors_def)
  have plain: "(\<forall>n. read_csv \<noteq> GroupRecordSet n) \<and>
     \<not> (is_ReadField read_csv \<and> previous_results example_graph [download \<mapsto> PyObj []] read_csv = [])"
    unfolding prev by (simp add: read_csv_def)
  have kw: "get_kwargs example_graph read_csv = []"
    by (simp add: example_defs get_kwargs_def)
  from gathered_predecessor_results [OF pre, of read_csv] plain prev kw pre
  show ?thesis by simp
qed

text \<open>
  C7. A \<open>ReadField\<close> met in the top-level walk with no gathered predecessor
  result is skipped: the step ends at \<open>continue\<close> with the state as it was, so the
  operation is not invoked and the cache gets no entry.
\<close>

theorem ReadField_without_inputs_skipped:
  assumes "is_ReadField operation"
      and "previous_results g (results st) operation = []"
  shows "step env g rs operation st = (None, st)"
  using assms by (cases operation) simp_all

theorem ReadField_without_inputs_skipped_witness:
  "is_ReadField ratings_user \<and>
   previous_results example_graph (results (init_exec :: nat list exec)) ratings_user = [] \<and>
   step example_engine example_graph ''ratings'' ratings_user init_exec = (None, init_exec)"
proof -
  have rf: "is_ReadField ratings_user" by (simp add: ratings_user_def)
  have prev: "previous_results example_graph (results (init_exec :: nat list exec)) ratings_user = []"
    by (simp add: example_defs init_exec_def previous_results_def predecessors_def)
  from ReadField_without_inputs_skipped [OF rf prev, of example_engine "''ratings''"] rf prev
  show ?thesis by simp
qed

text \<open>
  C1. Let the walk reach the one \<open>GroupRecordSet\<close> named as the target after the
  operations before it have run, let its single predecessor have a table in
  the cache, let its successors all be \<open>ReadField\<close> operations, and let \<open>fld rf line\<close>
  be what the field \<open>rf\<close> returns on the row \<open>line\<close> and \<open>rcd line\<close> what the
  \<open>GroupRecordSet\<close> returns on the fields of that row. Then the iteration yields
  exactly \<open>rcd line\<close> for each row of the table, in row order: one record per row,
  and none for an empty table.
\<close>

theorem one_record_per_row:
  assumes ops: "operations (dataset r) = Some cg"
      and sort: "topological_sort env (graph_of cg) = (pre @ GroupRecordSet n # post, unfeasible)"
      and target: "name n = record_set r"
      and unique: "\<forall>n'. GroupRecordSet n' \<in> set (pre @ post) \<longrightarrow> name n' \<noteq> record_set r"
      and pre: "iter_loop env (graph_of cg) (record_set r) pre init_exec = (None, st)"
      and single: "predecessors (graph_of cg) (GroupRecordSet n) = [p]"
      and table: "results st p = Some (DataFrame rows)"
      and succs: "\<forall>rf \<in> set (successors (graph_of cg) (GroupRecordSet n)). is_ReadField rf"
      and fields: "\<forall>line \<in> set rows. \<forall>rf \<in> set (successors (graph_of cg) (GroupRecordSet n)).
                     call env rf [line] (get_kwargs (graph_of cg) (GroupRecordSet n)) = Inr (fld rf line)"
      and group: "\<forall>line \<in> set rows.
                     call env (GroupRecordSet n)
                       (map (\<lambda>rf. fld rf line) (successors (graph_of cg) (GroupRecordSet n)))
                       (get_kwargs (graph_of cg) (GroupRecordSet n)) = Inr (rcd line)"
  shows "yielded (snd (Records_iter env r)) = map rcd rows \<and>
         length (yielded (snd (Records_iter env r))) = length rows"
proof -
  let ?g = "graph_of cg" and ?rs = "record_set r" and ?G = "GroupRecordSet n"
  let ?kw = "get_kwargs ?g ?G"
  from unique have upre: "\<forall>n'. GroupRecordSet n' \<in> set pre \<longrightarrow> name n' \<noteq> ?rs"
    and upost: "\<forall>n'. GroupRecordSet n' \<in> set post \<longrightarrow> name n' \<noteq> ?rs" by auto
  from iter_loop_no_yield [OF upre pre] have y0: "yielded st = []"
    by (simp add: init_exec_def)
  have prev: "previous_results ?g (results st) ?G = [DataFrame rows]"
    using single table by (simp add: previous_results_def)
  from rows_loop_ok [OF succs fields group, of st] obtain st1 where
    rl: "rows_loop env ?g ?G ?kw rows st = (None, st1)" and y1: "yielded st1 = yielded st @ map rcd rows"
    by blast
  have s: "step env ?g ?rs ?G st = (None, st1)"
    using target prev rl by (simp add: Let_def)
  obtain res st2 where post: "iter_loop env ?g ?rs post st1 = (res, st2)"
    by (cases "iter_loop env ?g ?rs post st1")
  from iter_loop_no_yield [OF upost post] have y2: "yielded st2 = yielded st1" .
  have "iter_loop env ?g ?rs (pre @ ?G # post) init_exec = (res, st2)"
    using pre s post by (simp add: iter_loop_append)
  then have "snd (Records_iter env r) = st2"
    using ops sort by (cases res) (simp_all add: Records_iter_def)
  with y0 y1 y2 show ?thesis by simp
qed

theorem one_record_per_row_witness:
  "predecessors example_graph ratings = [read_csv] \<and>
   successors example_graph ratings = [ratings_user, ratings_score] \<and>
   yielded (snd (Records_iter example_engine (records example_dataset ''ratings''))) =
     [PyObj [7, 5], PyObj [8, 3]]"
proof -
  let ?r = "records example_dataset ''ratings''"
  let ?cg = "\<lparr>graph_of = example_graph\<rparr>"
  let ?n = "\<lparr>uid = ''ratings'', name = ''ratings''\<rparr>"
  let ?st = "\<lparr>results = [download \<mapsto> PyObj [], read_csv \<mapsto> DataFrame [PyObj [7, 5], PyObj [8, 3]]],
              yielded = [], invoked = [(download, [], []), (read_csv, [PyObj []], [])]\<rparr>"
  let ?rows = "[PyObj [7, 5], PyObj [8, 3 :: nat]]"
  have ops: "operations (dataset ?r) = Some ?cg"
    by (simp add: records_def example_dataset_def)
  have sort: "topological_sort example_engine (graph_of ?cg) =
      ([download, read_csv] @ GroupRecordSet ?n # [ratings_user, ratings_score, users, users_user], None)"
    by (simp add: example_defs)
  have target: "name ?n = record_set ?r" by (simp add: records_def)
  have unique: "\<forall>n'. GroupRecordSet n' \<in> set ([download, read_csv] @
      [ratings_user, ratings_score, users, users_user]) \<longrightarrow> name n' \<noteq> record_set ?r"
    by (auto simp: example_defs records_def)
  have pre: "iter_loop example_engine (graph_of ?cg) (record_set ?r) [download, read_csv] init_exec
      = (None, ?st)"
    by (simp add: example_defs records_def init_exec_def Let_def previous_results_def
        predecessors_def get_kwargs_def invoke_def)
  have single: "predecessors (graph_of ?cg) (GroupRecordSet ?n) = [read_csv]"
    by (simp add: example_defs predecessors_def)
  have table: "results ?st read_csv = Some (DataFrame ?rows)"
    by (simp add: example_defs)
  have sc: "successors (graph_of ?cg) (GroupRecordSet ?n) = [ratings_user, ratings_score]"
    by (simp add: example_defs successors_def)
  have succs: "\<forall>rf \<in> set (successors (graph_of ?cg) (GroupRecordSet ?n)). is_ReadField rf"
    unfolding sc by (simp add: example_defs)
  have fields: "\<forall>line \<in> set ?rows. \<forall>rf \<in> set (successors (graph_of ?cg) (GroupRecordSet ?n)).
      call example_engine rf [line] (get_kwargs (graph_of ?cg) (GroupRecordSet ?n)) = Inr (example_field rf line)"
    unfolding sc by (simp add: example_defs example_field_def get_kwargs_def)
  have group: "\<forall>line \<in> set ?rows. call example_engine (GroupRecordSet ?n)
      (map (\<lambda>rf. example_field rf line) (successors (graph_of ?cg) (GroupRecordSet ?n)))
      (get_kwargs (graph_of ?cg) (GroupRecordSet ?n)) = Inr (id line)"
    unfolding sc by (simp add: example_defs example_field_def get_kwargs_def)
  from one_record_per_row [OF ops sort target unique pre single table succs fields group]
  have "yielded (snd (Records_iter example_engine ?r)) = ?rows" by simp
  moreover have "predecessors example_graph ratings = [read_csv]"
    using single by (simp add: ratings_def)
  moreover have "successors example_graph ratings = [ratings_user, ratings_score]"
    using sc by (simp add: ratings_def)
  ultimately show ?thesis by simp
qed



text \<open>
  C5. When the dataset has a graph, the target name is the name of no
  \<open>GroupRecordSet\<close> node of it, the topological sort gives nodes of the graph and
  ends without raising, and every call that the walk makes returns (a call is
  recorded in \<open>invoked\<close> before its result is looked at), the iteration yields
  no record and ends without an exception.
\<close>

theorem absent_record_set_yields_nothing:
  assumes ops: "operations (dataset r) = Some cg"
      and sort: "topological_sort env (graph_of cg) = (order, None)"
      and sub: "set order \<subseteq> fst ` set (nodes (graph_of cg))"
      and absent: "record_set r \<notin> set (group_names (graph_of cg))"
      and returned: "\<forall>(operation, args, kw) \<in> set (invoked (snd (Records_iter env r))).
                       \<exists>v. call env operation args kw = Inr v"
  shows "yielded (snd (Records_iter env r)) = [] \<and> fst (Records_iter env r) = None"
proof -
  have nomatch: "\<forall>n. GroupRecordSet n \<in> set order \<longrightarrow> name n \<noteq> record_set r"
    using sub absent in_group_names by fastforce
  obtain res st' where
    il: "iter_loop env (graph_of cg) (record_set r) order init_exec = (res, st')"
    by (cases "iter_loop env (graph_of cg) (record_set r) order init_exec")
  have out: "Records_iter env r = (res, st')"
    using ops sort il by (cases res) (simp_all add: Records_iter_def)
  from iter_loop_no_yield [OF nomatch il] have y: "yielded st' = []"
    by (simp add: init_exec_def)
  from iter_loop_plain_raises [OF nomatch il]
  have "res = None \<longleftrightarrow>
     (\<forall>(operation, args, kw) \<in> set (invoked st'). \<exists>v. call env operation args kw = Inr v)"
    by (auto simp: init_exec_def)
  with returned out have "res = None" by simp
  with out y show ?thesis by simp
qed

theorem absent_record_set_yields_nothing_witness:
  "record_set (records example_dataset ''movies'') \<notin> set (group_names example_graph) \<and>
   invoked (snd (Records_iter example_engine (records example_dataset ''movies''))) =
     [(download, [], []), (read_csv, [PyObj []], [])] \<and>
   call example_engine download [] [] = Inr (PyObj []) \<and>
   call example_engine read_csv [PyObj []] [] = Inr (DataFrame [PyObj [7, 5], PyObj [8, 3]]) \<and>
   yielded (snd (Records_iter example_engine (records example_dataset ''movies''))) = [] \<and>
   fst (Records_iter example_engine (records example_dataset ''movies'')) = None"
proof -
  let ?r = "records example_dataset ''movies''"
  have ops: "operations (dataset ?r) = Some \<lparr>graph_of = example_graph\<rparr>"
    by (simp add: records_def example_dataset_def)
  have sort: "topological_sort example_engine (graph_of \<lparr>graph_of = example_graph\<rparr>) =
      (map fst (nodes example_graph), None)"
    by (simp add: example_engine_def)
  have sub: "set (map fst (nodes example_graph)) \<subseteq> fst ` set (nodes (graph_of \<lparr>graph_of = example_graph\<rparr>))"
    by simp
  have absent: "record_set ?r \<notin> set (group_names (graph_of \<lparr>graph_of = example_graph\<rparr>))"
    by (simp add: records_def group_names_def example_defs)
  have inv: "invoked (snd (Records_iter example_engine ?r)) =
      [(download, [], []), (read_csv, [PyObj []], [])]"
    by (simp add: Records_iter_def records_def example_defs init_exec_def Let_def
      previous_results_def predecessors_def successors_def get_kwargs_def invoke_def)
  have c1: "call example_engine download [] [] = Inr (PyObj [])"
    by (simp add: example_defs)
  have c2: "call example_engine read_csv [PyObj []] [] = Inr (DataFrame [PyObj [7, 5], PyObj [8, 3]])"
    by (simp add: example_defs)
  have returned: "\<forall>(operation, args, kw) \<in> set (invoked (snd (Records_iter example_engine ?r))).
      \<exists>v. call example_engine operation args kw = Inr v"
    unfolding inv using c1 c2 by simp
  from absent_record_set_yields_nothing [OF ops sort sub absent returned] absent inv c1 c2
  show ?thesis by simp
qed

text \<open>
  C2, as stated, fails: for the document whose entry node is \<open>Movielens-25M\<close> an
  error is in the ledger, yet the analysis returns without raising, because the
  \<open>return\<close> of the feature toggle skips the tests that follow the \<open>try\<close> block.
\<close>

theorem static_analysis_misses_errors:
  "fst (run_static_analysis example_analysis (new_Validator ''movielens.json'')) = None \<and>
   errors (issues (snd (run_static_analysis example_analysis (new_Validator ''movielens.json'')))) \<noteq> []"
  by (simp add: analysis_defs example_analysis_def Let_def)

text \<open>
  C2, amended. When the analysis does not leave through the \<open>Movielens-25M\<close>
  return: if at least one error is in the ledger and no step raised anything
  but an \<open>Exception\<close>, it raises \<open>ValidationError\<close> with the ledger's report; an
  exception of a step is raised again as it is when no error is in the ledger
  or when it is not an \<open>Exception\<close>; and when no step raised and no error is in the
  ledger, the analysis completes without raising, logging the report when a
  warning is in the ledger.
\<close>

theorem static_analysis_outcome:
  assumes "try_block env v = (c, v')"
      and "c \<noteq> Returned"
  shows "(errors (issues v') \<noteq> [] \<and> (\<forall>e. c = Raised e \<longrightarrow> is_Exception e) \<longrightarrow>
            run_static_analysis env v = (Some (ValidationError (report env (issues v'))), v')) \<and>
         (\<forall>e. c = Raised e \<and> (errors (issues v') = [] \<or> \<not> is_Exception e) \<longrightarrow>
            run_static_analysis env v = (Some e, v')) \<and>
         (c = Completed \<and> errors (issues v') = [] \<longrightarrow>
            run_static_analysis env v =
              (None, if warnings (issues v') \<noteq> []
                     then v'\<lparr>warned := warned v' @ [report env (issues v')]\<rparr> else v'))"
  using assms by (cases c) (auto simp: run_static_analysis_def)

theorem static_analysis_outcome_witness:
  "try_block example_analysis (new_Validator ''ratings.json'') =
     (Completed,
      \<lparr>file_or_file_path = ''ratings.json'',
       issues = [\<lparr>severity = Warning, issue_node = None, message = ''No license.''\<rparr>],
       validator_file = Some 0, validator_operations = Some \<lparr>graph_of = example_graph\<rparr>,
       warned = [],
       entered = [Load_rdf_graph, Check_rdf_graph, Build_structure_graph, From_nodes, Check_graph]\<rparr>) \<and>
   run_static_analysis example_analysis (new_Validator ''ratings.json'') =
     (None,
      \<lparr>file_or_file_path = ''ratings.json'',
       issues = [\<lparr>severity = Warning, issue_node = None, message = ''No license.''\<rparr>],
       validator_file = Some 0, validator_operations = Some \<lparr>graph_of = example_graph\<rparr>,
       warned = [''No license.''],
       entered = [Load_rdf_graph, Check_rdf_graph, Build_structure_graph, From_nodes, Check_graph]\<rparr>)"
proof -
  let ?v' = "\<lparr>file_or_file_path = ''ratings.json'',
       issues = [\<lparr>severity = Warning, issue_node = None, message = ''No license.''\<rparr>],
       validator_file = Some (0::nat), validator_operations = Some \<lparr>graph_of = example_graph\<rparr>,
       warned = [],
       entered = [Load_rdf_graph, Check_rdf_graph, Build_structure_graph, From_nodes, Check_graph]\<rparr>"
  have tb: "try_block example_analysis (new_Validator ''ratings.json'') = (Completed, ?v')"
    by (simp add: try_block_def check_and_build_def compile_and_check_def load_file_def
        new_Validator_def enter_def example_analysis_def Let_def)
  have ne: "Completed \<noteq> Returned" by simp
  have er: "errors (issues ?v') = []" "warnings (issues ?v') \<noteq> []"
    by (simp_all add: errors_def warnings_def)
  have rp: "report example_analysis (issues ?v') = ''No license.''"
    by (simp add: example_analysis_def)
  from static_analysis_outcome [OF tb ne] er rp tb show ?thesis by simp
qed

text \<open>
  C8. When the resolved path does not exist, \<open>_load_file\<close> raises \<open>ValueError\<close> naming
  the file; the \<open>try\<close> block ends there with the validator as it was; and for a new
  validator, as \<open>Dataset\<close> makes it, the analysis raises that \<open>ValueError\<close> with an
  empty ledger and none of the graph or validation steps entered.
\<close>

theorem missing_file_raises_first:
  assumes "\<not> exists env (resolve env path)"
  shows "load_file env path = Inl (ValueError (''File '' @ resolve env path @ '' does not exist.'')) \<and>
         (file_or_file_path v = path \<longrightarrow>
            try_block env v = (Raised (ValueError (''File '' @ resolve env path @ '' does not exist.'')), v)) \<and>
         run_static_analysis env (new_Validator path) =
           (Some (ValueError (''File '' @ resolve env path @ '' does not exist.'')), new_Validator path) \<and>
         issues (snd (run_static_analysis env (new_Validator path))) = [] \<and>
         entered (snd (run_static_analysis env (new_Validator path))) = [] \<and>
         Dataset_post_init env path =
           Inl (ValueError (''File '' @ resolve env path @ '' does not exist.''))"
proof -
  let ?e = "ValueError (''File '' @ resolve env path @ '' does not exist.'')"
  from assms have lf: "load_file env path = Inl ?e"
    by (simp add: load_file_def Let_def)
  have tb: "try_block env w = (Raised ?e, w)" if "file_or_file_path w = path" for w
    using lf that by (simp add: try_block_def)
  have "file_or_file_path (new_Validator path) = path"
    by (simp add: new_Validator_def)
  from tb [OF this]
  have run: "run_static_analysis env (new_Validator path) = (Some ?e, new_Validator path)"
    by (simp add: run_static_analysis_def errors_def new_Validator_def)
  from lf tb run show ?thesis
    by (simp add: Dataset_post_init_def new_Validator_def)
qed

theorem missing_file_raises_first_witness:
  "\<not> exists example_analysis (resolve example_analysis ''missing.json'') \<and>
   load_file example_analysis ''missing.json'' =
     Inl (ValueError ''File /data/missing.json does not exist.'') \<and>
   run_static_analysis example_analysis (new_Validator ''missing.json'') =
     (Some (ValueError ''File /data/missing.json does not exist.''), new_Validator ''missing.json'') \<and>
   Dataset_post_init example_analysis ''missing.json'' =
     Inl (ValueError ''File /data/missing.json does not exist.'')"
proof -
  have ne: "\<not> exists example_analysis (resolve example_analysis ''missing.json'')"
    by (simp add: example_analysis_def)
  have rs: "resolve example_analysis ''missing.json'' = ''/data/missing.json''"
    by (simp add: example_analysis_def)
  from missing_file_raises_first [OF ne] ne rs show ?thesis by simp
qed

text \<open>
  C9. When the file loads, the RDF graph loads, the RDF check and the structure
  graph return, and the entry node's uid is \<open>Movielens-25M\<close>, the analysis returns
  right after building the structure graph: without an exception (whatever the
  ledger holds), with \<open>operations\<close> as it was, and with neither \<open>from_nodes\<close> nor
  \<open>check_graph\<close> entered.
\<close>

theorem movielens_returns_early:
  assumes "load_file env (file_or_file_path v) = Inr (file_path, d)"
      and "load_rdf_graph env d = Inr (rdf_graph, rdf_nx_graph)"
      and "check_rdf_graph env (issues v) rdf_nx_graph = (Inr ns, iss1)"
      and "build_structure_graph env iss1 ns = (Inr (entry_node, structure_graph), iss2)"
      and "uid entry_node = ''Movielens-25M''"
  shows "run_static_analysis env v =
           (None, v\<lparr>validator_file := Some d, issues := iss2,
                    entered := entered v @ [Load_rdf_graph, Check_rdf_graph, Build_structure_graph]\<rparr>) \<and>
         validator_operations (snd (run_static_analysis env v)) = validator_operations v \<and>
         entered (snd (run_static_analysis env v)) =
           entered v @ [Load_rdf_graph, Check_rdf_graph, Build_structure_graph] \<and>
         warned (snd (run_static_analysis env v)) = warned v"
proof -
  let ?v' = "v\<lparr>validator_file := Some d, issues := iss2,
               entered := entered v @ [Load_rdf_graph, Check_rdf_graph, Build_structure_graph]\<rparr>"
  have "check_and_build env (enter Load_rdf_graph (v\<lparr>validator_file := Some d\<rparr>))
          file_path rdf_graph rdf_nx_graph = (Returned, ?v')"
    using assms(3-5) by (simp add: check_and_build_def enter_def Let_def)
  with assms(1,2) have "try_block env v = (Returned, ?v')"
    by (simp add: try_block_def Let_def)
  then have "run_static_analysis env v = (None, ?v')"
    by (simp add: run_static_analysis_def)
  then show ?thesis by simp
qed

theorem movielens_returns_early_witness:
  "run_static_analysis example_analysis (new_Validator ''movielens.json'') =
     (None,
      \<lparr>file_or_file_path = ''movielens.json'',
       issues = [\<lparr>severity = Error, issue_node = Some ''Movielens-25M'',
                  message = ''Property name is mandatory, but does not exist.''\<rparr>],
       validator_file = Some 1, validator_operations = None, warned = [],
       entered = [Load_rdf_graph, Check_rdf_graph, Build_structure_graph]\<rparr>)"
proof -
  let ?v = "new_Validator ''movielens.json'' :: (nat, nat list) Validator"
  let ?err = "\<lparr>severity = Error, issue_node = Some ''Movielens-25M'',
                  message = ''Property name is mandatory, but does not exist.''\<rparr>"
  have a1: "load_file example_analysis (file_or_file_path ?v) = Inr (''/data/movielens.json'', 1)"
    by (simp add: load_file_def new_Validator_def example_analysis_def)
  have a2: "load_rdf_graph example_analysis 1 = Inr (1, 1)"
    by (simp add: example_analysis_def)
  have a3: "check_rdf_graph example_analysis (issues ?v) 1 = (Inr 1, [])"
    by (simp add: example_analysis_def new_Validator_def)
  have a4: "build_structure_graph example_analysis [] 1 =
      (Inr (\<lparr>uid = ''Movielens-25M'', name = ''MovieLens''\<rparr>, ()), [?err])"
    by (simp add: example_analysis_def)
  have a5: "uid \<lparr>uid = ''Movielens-25M'', name = ''MovieLens''\<rparr> = ''Movielens-25M''" by simp
  from movielens_returns_early [OF a1 a2 a3 a4 a5] show ?thesis
    by (simp add: new_Validator_def)
qed

text \<open>
  C10. A \<open>Dataset\<close> whose validator left through the \<open>Movielens-25M\<close> return has
  \<open>operations = None\<close>; and for every \<open>Dataset\<close> with \<open>operations = None\<close>, \<open>records\<close>
  returns the view, and iterating it raises \<open>AttributeError\<close> before anything is
  yielded, invoked or cached.
\<close>

theorem no_operations_iteration_raises:
  "(Dataset_post_init env path = Inr ds \<and> try_block env (new_Validator path) = (Returned, v')
      \<longrightarrow> operations ds = None) \<and>
   (operations ds = None \<longrightarrow>
      records ds rs = \<lparr>dataset = ds, record_set = rs\<rparr> \<and>
      Records_iter eng (records ds rs) = (Some AttributeError, init_exec) \<and>
      yielded (snd (Records_iter eng (records ds rs))) = [])"
proof (intro conjI impI)
  assume a: "Dataset_post_init env path = Inr ds \<and> try_block env (new_Validator path) = (Returned, v')"
  then have tb: "try_block env (new_Validator path) = (Returned, v')" by simp
  from try_block_Returned [OF tb] have "validator_operations v' = None"
    by (simp add: new_Validator_def)
  moreover from tb have "run_static_analysis env (new_Validator path) = (None, v')"
    by (simp add: run_static_analysis_def)
  ultimately show "operations ds = None"
    using a by (auto simp: Dataset_post_init_def split: option.splits)
next
  show "records ds rs = \<lparr>dataset = ds, record_set = rs\<rparr>" by (simp add: records_def)
next
  assume "operations ds = None"
  then show "Records_iter eng (records ds rs) = (Some AttributeError, init_exec)"
    by (simp add: Records_iter_def records_def)
next
  assume "operations ds = None"
  then show "yielded (snd (Records_iter eng (records ds rs))) = []"
    by (simp add: Records_iter_def records_def init_exec_def)
qed

theorem no_operations_iteration_raises_witness:
  "Dataset_post_init example_analysis ''movielens.json'' = Inr \<lparr>dataset_file = 1, operations = None\<rparr> \<and>
   records \<lparr>dataset_file = 1 :: nat, operations = None :: nat list ComputationGraph option\<rparr> ''ratings'' =
     \<lparr>dataset = \<lparr>dataset_file = 1, operations = None\<rparr>, record_set = ''ratings''\<rparr> \<and>
   Records_iter example_engine
     (records \<lparr>dataset_file = 1 :: nat, operations = None\<rparr> ''ratings'') =
     (Some AttributeError, init_exec)"
proof -
  let ?ds = "\<lparr>dataset_file = 1 :: nat, operations = None :: nat list ComputationGraph option\<rparr>"
  let ?v' = "\<lparr>file_or_file_path = ''movielens.json'',
       issues = [\<lparr>severity = Error, issue_node = Some ''Movielens-25M'',
                  message = ''Property name is mandatory, but does not exist.''\<rparr>],
       validator_file = Some (1::nat), validator_operations = None :: nat list ComputationGraph option,
       warned = [], entered = [Load_rdf_graph, Check_rdf_graph, Build_structure_graph]\<rparr>"
  have tb: "try_block example_analysis (new_Validator ''movielens.json'') = (Returned, ?v')"
    by (simp add: try_block_def check_and_build_def load_file_def
        new_Validator_def enter_def example_analysis_def Let_def)
  then have ds: "Dataset_post_init example_analysis ''movielens.json'' = Inr ?ds"
    by (simp add: Dataset_post_init_def run_static_analysis_def)
  have none: "operations ?ds = None" by simp
  from no_operations_iteration_raises [of example_analysis "''movielens.json''" ?ds ?v'
      "''ratings''" example_engine] none
  have "records ?ds ''ratings'' = \<lparr>dataset = ?ds, record_set = ''ratings''\<rparr> \<and>
        Records_iter example_engine (records ?ds ''ratings'') = (Some AttributeError, init_exec)"
    by blast
  with ds show ?thesis by blast
qed

end
